theory Spec2Isabelle
  imports Main "HOL-Library.Multiset" "HOL-Library.Product_Lexorder"
begin

section \<open>Data model\<close>

text \<open>
  The server (\<^verbatim>\<open>app.js\<close>) talks to the platform's web API through axios. A call either
  resolves with a response body or rejects with an error object; the code reads
  \<^verbatim>\<open>error.message\<close> and \<^verbatim>\<open>error.response?.data\<close> of it (here the status and the payload
  of the response, when there is one).

  Response bodies have the fields the code reads, named as in the JSON (\<^verbatim>\<open>id\<close> and
  \<^verbatim>\<open>name\<close> with the kind of object in front, \<^verbatim>\<open>external_urls.spotify\<close> as
  \<open>external_url\<close>, \<^verbatim>\<open>albums.items\<close> and \<^verbatim>\<open>albums.total\<close> as \<open>albums_items\<close> and
  \<open>albums_total\<close>). The access token of the token response may be missing: \<open>None\<close> is the
  \<^verbatim>\<open>undefined\<close> of the language. The fixed delays between calls (\<^verbatim>\<open>sleep\<close>) have no
  counterpart here.
\<close>

record axios_error =
  err_message :: string
  err_response :: "(nat \<times> string) option"

record token_body =
  access_token :: "string option"

record profile =
  user_id :: string
  display_name :: string

record album =
  album_id :: string
  album_name :: string
  release_date :: string

record search_body =
  albums_items :: "album list"
  albums_total :: int

record track_item =
  uri :: string
  track_number :: int

record track = track_item +
  albumReleaseDate :: string
  albumTrackNumber :: int

record playlist =
  playlist_id :: string
  playlist_name :: string
  external_url :: string

record progress_event =
  message :: string
  percent :: int
  playlist :: "string option"

text \<open>
  The outbound calls, with the parameters the code puts into each of them: the code of the
  token exchange; the \<^verbatim>\<open>Authorization\<close> header of the profile lookup; header, query,
  limit and offset of a search; album id and header of a track listing; user id, header,
  name and description of the playlist to create; playlist id, header and URIs of an append.
\<close>

datatype request =
    TokenPost string
  | ProfileGet string
  | SearchGet string string nat nat
  | AlbumTracksGet string string
  | CreatePlaylistPost string string string string
  | AddTracksPost string string "string list"

text \<open>
  The platform answers a request knowing the requests of the run that came before it, so
  the same request may be answered differently the second time.
\<close>

record platform =
  token_api :: "request list \<Rightarrow> string \<Rightarrow> axios_error + token_body"
  profile_api :: "request list \<Rightarrow> string \<Rightarrow> axios_error + profile"
  search_api :: "request list \<Rightarrow> string \<Rightarrow> string \<Rightarrow> nat \<Rightarrow> nat \<Rightarrow> axios_error + search_body"
  tracks_api :: "request list \<Rightarrow> string \<Rightarrow> string \<Rightarrow> axios_error + track_item list"
  create_api :: "request list \<Rightarrow> string \<Rightarrow> string \<Rightarrow> string \<Rightarrow> string \<Rightarrow> axios_error + playlist"
  add_api :: "request list \<Rightarrow> string \<Rightarrow> string \<Rightarrow> string list \<Rightarrow> axios_error + unit"

text \<open>
  What a run does to the outside, in the order it does it: a request to the platform, a
  progress event broadcast with \<^verbatim>\<open>io.emit\<close>, a line on \<^verbatim>\<open>console.error\<close> (its two
  arguments).
\<close>

datatype effect =
    Request request
  | Progress progress_event
  | ConsoleError string string

text \<open>
  An awaited call returns a value or throws the error of axios; \<open>Pending\<close> is a call that
  has not come back yet.
\<close>

datatype 'a outcome = Returned 'a | Thrown axios_error | Pending

text \<open>
  The four answers of the callback route: \<^verbatim>\<open>Error: No authorization code provided.\<close>,
  \<^verbatim>\<open>No tracks found.\<close>, the completion page, and
  \<^verbatim>\<open>Error during processing. Check the server logs for details.\<close>
\<close>

datatype page = NoCodePage | NoTracksPage | CompletePage | ErrorPage

section \<open>Helpers of the language\<close>

text \<open>
  Numbers and \<^verbatim>\<open>undefined\<close> inside template literals, the double quote, the bearer header,
  and \<^verbatim>\<open>error.response?.data || error.message\<close> (an empty payload is falsy).
\<close>

fun show_nat :: "nat \<Rightarrow> string" where
  "show_nat n =
     (if n < 10 then [char_of (48 + n)]
      else show_nat (n div 10) @ [char_of (48 + n mod 10)])"

declare show_nat.simps [simp del]

definition show_int :: "int \<Rightarrow> string" where
  "show_int i = (if i < 0 then ''-'' @ show_nat (nat (- i)) else show_nat (nat i))"

definition js_string :: "string option \<Rightarrow> string" where
  "js_string v = (case v of None \<Rightarrow> ''undefined'' | Some s \<Rightarrow> s)"

definition dq :: string where
  "dq = [CHR 0x22]"

definition bearer :: "string option \<Rightarrow> string" where
  "bearer token = ''Bearer '' @ js_string token"

definition err_detail :: "axios_error \<Rightarrow> string" where
  "err_detail error =
     (case err_response error of
        None \<Rightarrow> err_message error
      | Some (status, payload) \<Rightarrow> if payload = [] then err_message error else payload)"

fun requests :: "effect list \<Rightarrow> request list" where
  "requests [] = []"
| "requests (Request r # es) = r # requests es"
| "requests (e # es) = requests es"

fun progress_events :: "effect list \<Rightarrow> progress_event list" where
  "progress_events [] = []"
| "progress_events (Progress ev # es) = ev # progress_events es"
| "progress_events (e # es) = progress_events es"

text \<open>\<^verbatim>\<open>io.emit('progress', {message, percent})\<close>, appended to the trace.\<close>

definition emit :: "effect list \<Rightarrow> string \<Rightarrow> int \<Rightarrow> effect list" where
  "emit tr msg pct = tr @ [Progress \<lparr>message = msg, percent = pct, playlist = None\<rparr>]"

text \<open>
  \<^verbatim>\<open>await\<close> inside a \<^verbatim>\<open>try\<close> block: the rest runs on the value returned, and an error
  thrown skips it.
\<close>

definition await :: "'a outcome \<times> effect list \<Rightarrow> ('a \<Rightarrow> effect list \<Rightarrow> 'b outcome \<times> effect list)
    \<Rightarrow> 'b outcome \<times> effect list" where
  "await m k =
     (case m of
        (Returned x, tr) \<Rightarrow> k x tr
      | (Thrown error, tr) \<Rightarrow> (Thrown error, tr)
      | (Pending, tr) \<Rightarrow> (Pending, tr))"

section \<open>The chronological sorter\<close>

text \<open>
  \<^verbatim>\<open>new Date(s).getTime()\<close> is a service of the language: the time value of the date
  string, or NaN (here \<open>None\<close>) when the string is no date. It is a parameter of the model.
  The comparator of \<^verbatim>\<open>allTracks.sort\<close> returns a number or NaN: \<^verbatim>\<open>===\<close> on two NaN is false,
  and a difference with NaN is NaN.
\<close>

definition compareTracks :: "(string \<Rightarrow> int option) \<Rightarrow> track \<Rightarrow> track \<Rightarrow> int option" where
  "compareTracks getTime a b =
     (let dateA = getTime (albumReleaseDate a);
          dateB = getTime (albumReleaseDate b)
      in if dateA \<noteq> None \<and> dateA = dateB
         then Some (albumTrackNumber a - albumTrackNumber b)
         else (case (dateA, dateB) of
                 (Some ta, Some tb) \<Rightarrow> Some (ta - tb)
               | _ \<Rightarrow> None))"

text \<open>
  \<^verbatim>\<open>Array.prototype.sort\<close> is stable, reads a NaN from the comparator as 0, and orders
  \<open>y\<close> before an earlier \<open>x\<close> only when the comparator puts \<open>y\<close> strictly first. For a
  consistent comparator this fixes the result; it is written here as a stable insertion sort.
\<close>

definition SortCompare :: "('a \<Rightarrow> 'a \<Rightarrow> int option) \<Rightarrow> 'a \<Rightarrow> 'a \<Rightarrow> int" where
  "SortCompare comparefn x y = (case comparefn x y of None \<Rightarrow> 0 | Some v \<Rightarrow> v)"

fun sort_insert :: "('a \<Rightarrow> 'a \<Rightarrow> int option) \<Rightarrow> 'a \<Rightarrow> 'a list \<Rightarrow> 'a list" where
  "sort_insert comparefn x [] = [x]"
| "sort_insert comparefn x (y # ys) =
     (if SortCompare comparefn y x < 0 then y # sort_insert comparefn x ys else x # y # ys)"

definition array_sort :: "('a \<Rightarrow> 'a \<Rightarrow> int option) \<Rightarrow> 'a list \<Rightarrow> 'a list" where
  "array_sort comparefn xs = foldr (sort_insert comparefn) xs []"

definition sortTracks :: "(string \<Rightarrow> int option) \<Rightarrow> track list \<Rightarrow> track list" where
  "sortTracks getTime allTracks = array_sort (compareTracks getTime) allTracks"

text \<open>The body of \<^verbatim>\<open>albumTracks.forEach\<close>: a track is stamped with its album's release date.\<close>

definition stamp :: "album \<Rightarrow> track_item \<Rightarrow> track" where
  "stamp album t =
     \<lparr>uri = uri t, track_number = track_number t,
      albumReleaseDate = release_date album, albumTrackNumber = track_number t\<rparr>"

section \<open>The calls to the platform\<close>

text \<open>
  Each function asks the platform, which sees the requests of the run so far, and records
  its request in the trace. When axios rejects, the \<^verbatim>\<open>catch\<close> block logs the detail of the
  error and throws the error again.
\<close>

definition getUserProfile :: "platform \<Rightarrow> string option \<Rightarrow> effect list \<Rightarrow> profile outcome \<times> effect list" where
  "getUserProfile pf token tr =
     (case profile_api pf (requests tr) (bearer token) of
        Inr data \<Rightarrow> (Returned data, tr @ [Request (ProfileGet (bearer token))])
      | Inl error \<Rightarrow>
          (Thrown error,
           tr @ [Request (ProfileGet (bearer token)),
                 ConsoleError ''Error fetching user profile:'' (err_detail error)]))"

definition getAccessToken :: "platform \<Rightarrow> string \<Rightarrow> effect list \<Rightarrow> string option outcome \<times> effect list" where
  "getAccessToken pf code tr =
     (case token_api pf (requests tr) code of
        Inr data \<Rightarrow> (Returned (access_token data), tr @ [Request (TokenPost code)])
      | Inl error \<Rightarrow>
          (Thrown error,
           tr @ [Request (TokenPost code),
                 ConsoleError ''Error obtaining access token:'' (err_detail error)]))"

text \<open>
  The \<^verbatim>\<open>do ... while (offset < total)\<close> loop of \<^verbatim>\<open>searchAlbumsByLabel\<close>. Nothing bounds it
  when the platform keeps raising the total, so it runs on fuel, one unit a page; out of
  fuel the call is still \<open>Pending\<close>.
\<close>

definition limit :: nat where
  "limit = 50"

fun search_loop :: "nat \<Rightarrow> platform \<Rightarrow> string \<Rightarrow> string \<Rightarrow> album list \<Rightarrow> nat \<Rightarrow> effect list
    \<Rightarrow> album list outcome \<times> effect list" where
  "search_loop 0 pf auth query albums offset tr = (Pending, tr)"
| "search_loop (Suc fuel) pf auth query albums offset tr =
     (case search_api pf (requests tr) auth query limit offset of
        Inl error \<Rightarrow>
          (Thrown error,
           tr @ [Request (SearchGet auth query limit offset),
                 ConsoleError ''Error searching for albums:'' (err_detail error)])
      | Inr data \<Rightarrow>
          (let albums' = albums @ albums_items data;
               total = albums_total data;
               offset' = offset + limit;
               tr' = emit (tr @ [Request (SearchGet auth query limit offset)])
                      (''Fetched '' @ show_nat (length albums') @ '' of '' @ show_int total
                         @ '' albums...'') 40
           in if int offset' < total
              then search_loop fuel pf auth query albums' offset' tr'
              else (Returned albums', tr')))"

definition label_query :: "string option \<Rightarrow> string" where
  "label_query label = ''label:'' @ dq @ js_string label @ dq"

definition searchAlbumsByLabel :: "nat \<Rightarrow> platform \<Rightarrow> string option \<Rightarrow> string option \<Rightarrow> effect list
    \<Rightarrow> album list outcome \<times> effect list" where
  "searchAlbumsByLabel fuel pf label token tr =
     search_loop fuel pf (bearer token) (label_query label) [] 0 tr"

definition getAlbumTracks :: "platform \<Rightarrow> string \<Rightarrow> string option \<Rightarrow> effect list
    \<Rightarrow> track_item list outcome \<times> effect list" where
  "getAlbumTracks pf albumId token tr =
     (case tracks_api pf (requests tr) albumId (bearer token) of
        Inr data \<Rightarrow> (Returned data, tr @ [Request (AlbumTracksGet albumId (bearer token))])
      | Inl error \<Rightarrow>
          (Thrown error,
           tr @ [Request (AlbumTracksGet albumId (bearer token)),
                 ConsoleError (''Error fetching tracks for album '' @ albumId @ '':'')
                   (err_detail error)]))"

definition playlistName :: "string option \<Rightarrow> string" where
  "playlistName label = ''Label Playlist: '' @ js_string label @ '' (Chronological)''"

definition playlistDescription :: "string option \<Rightarrow> string" where
  "playlistDescription label =
     ''A chronological playlist of songs from albums tagged with '' @ dq @ js_string label
       @ dq @ ''.''"

definition createPlaylist :: "platform \<Rightarrow> string \<Rightarrow> string option \<Rightarrow> string option \<Rightarrow> effect list
    \<Rightarrow> playlist outcome \<times> effect list" where
  "createPlaylist pf userId token label tr =
     (let req = CreatePlaylistPost userId (bearer token) (playlistName label)
                  (playlistDescription label)
      in case create_api pf (requests tr) userId (bearer token) (playlistName label)
                (playlistDescription label) of
           Inr data \<Rightarrow> (Returned data, tr @ [Request req])
         | Inl error \<Rightarrow>
             (Thrown error,
              tr @ [Request req, ConsoleError ''Error creating playlist:'' (err_detail error)]))"

definition BATCH_SIZE :: nat where
  "BATCH_SIZE = 100"

text \<open>The \<^verbatim>\<open>for (let i = 0; i < trackURIs.length; i += BATCH_SIZE)\<close> loop.\<close>

function add_loop :: "platform \<Rightarrow> string \<Rightarrow> string list \<Rightarrow> string option \<Rightarrow> nat \<Rightarrow> effect list
    \<Rightarrow> unit outcome \<times> effect list" where
  "add_loop pf playlistId trackURIs token i tr =
     (if i < length trackURIs
      then (let batch = take BATCH_SIZE (drop i trackURIs) in
            case add_api pf (requests tr) playlistId (bearer token) batch of
              Inr data \<Rightarrow>
                add_loop pf playlistId trackURIs token (i + BATCH_SIZE)
                  (emit (tr @ [Request (AddTracksPost playlistId (bearer token) batch)])
                     (''Added batch '' @ show_nat (i div BATCH_SIZE + 1) @ '' of tracks.'') 90)
            | Inl error \<Rightarrow>
                (Thrown error,
                 tr @ [Request (AddTracksPost playlistId (bearer token) batch),
                       ConsoleError ''Error adding tracks to playlist:'' (err_detail error)]))
      else (Returned (), tr))"
  by pat_completeness auto
termination
  by (relation "measure (\<lambda>(pf, playlistId, trackURIs, token, i, tr). length trackURIs - i)")
     (auto simp: BATCH_SIZE_def)

declare add_loop.simps [simp del]

definition addTracksToPlaylist :: "platform \<Rightarrow> string \<Rightarrow> string list \<Rightarrow> string option \<Rightarrow> effect list
    \<Rightarrow> unit outcome \<times> effect list" where
  "addTracksToPlaylist pf playlistId trackURIs token tr =
     add_loop pf playlistId trackURIs token 0 tr"

section \<open>The routes\<close>

text \<open>
  \<^verbatim>\<open>app.post('/start')\<close> stores the submitted label in the global \<^verbatim>\<open>currentLabel\<close> as it comes
  (\<open>None\<close> is a body with no label field); before any submission the global is the empty string.
\<close>

definition initialLabel :: "string option" where
  "initialLabel = Some []"

definition start :: "string option \<Rightarrow> string option" where
  "start label = label"

text \<open>The \<^verbatim>\<open>for (const album of albums)\<close> loop of the callback.\<close>

fun collect_loop :: "platform \<Rightarrow> string option \<Rightarrow> album list \<Rightarrow> track list \<Rightarrow> effect list
    \<Rightarrow> track list outcome \<times> effect list" where
  "collect_loop pf token [] allTracks tr = (Returned allTracks, tr)"
| "collect_loop pf token (album # rest) allTracks tr =
     await (getAlbumTracks pf (album_id album) token tr) (\<lambda>albumTracks tr.
       collect_loop pf token rest (allTracks @ map (stamp album) albumTracks)
         (emit tr (''Processed album '' @ dq @ album_name album @ dq @ ''.'') 45))"

text \<open>The \<^verbatim>\<open>try\<close> block of the callback up to the end of the album loop.\<close>

definition callback_collect :: "nat \<Rightarrow> platform \<Rightarrow> string option \<Rightarrow> string
    \<Rightarrow> (string option \<times> profile \<times> track list) outcome \<times> effect list" where
  "callback_collect fuel pf currentLabel code =
     await (getAccessToken pf code (emit [] ''Received authorization code.'' 10))
       (\<lambda>accessToken tr.
     await (getUserProfile pf accessToken (emit tr ''Access token received.'' 20))
       (\<lambda>userProfile tr.
     await (searchAlbumsByLabel fuel pf currentLabel accessToken
              (emit tr (''Logged in as '' @ display_name userProfile @ '' (''
                          @ user_id userProfile @ '').'') 30))
       (\<lambda>albums tr.
     await (collect_loop pf accessToken albums []
              (emit tr (''Found '' @ show_nat (length albums) @ '' albums for label '' @ dq
                          @ js_string currentLabel @ dq @ ''.'') 40))
       (\<lambda>allTracks tr. (Returned (accessToken, userProfile, allTracks), tr)))))"

text \<open>The rest of the \<^verbatim>\<open>try\<close> block: the empty-tracks guard, the sort and the playlist.\<close>

definition callback_playlist :: "platform \<Rightarrow> (string \<Rightarrow> int option) \<Rightarrow> string option
    \<Rightarrow> string option \<Rightarrow> profile \<Rightarrow> track list \<Rightarrow> effect list \<Rightarrow> page outcome \<times> effect list" where
  "callback_playlist pf getTime currentLabel accessToken userProfile allTracks tr =
     (if length allTracks = 0
      then (Returned NoTracksPage,
            emit tr (''No tracks found for label '' @ dq @ js_string currentLabel @ dq
                       @ ''.'') 50)
      else
        (let sorted = sortTracks getTime allTracks;
             trackURIs = map uri sorted
         in await (createPlaylist pf (user_id userProfile) accessToken currentLabel
                     (emit tr (''Total tracks to add: '' @ show_nat (length sorted)
                                 @ ''.'') 65))
              (\<lambda>newPlaylist tr.
            await (addTracksToPlaylist pf (playlist_id newPlaylist) trackURIs accessToken
                     (emit tr (''Created playlist '' @ dq @ playlist_name newPlaylist @ dq
                                 @ ''.'') 80))
              (\<lambda>done tr.
                 (Returned CompletePage,
                  emit tr ''All tracks added to the playlist successfully.'' 90
                    @ [Progress
                         \<lparr>message =
                            ''Processing complete. Check the main page for progress updates.'',
                          percent = 100,
                          playlist = Some (external_url newPlaylist)\<rparr>])))))"

text \<open>The whole \<^verbatim>\<open>try\<close> block.\<close>

definition callback_try :: "nat \<Rightarrow> platform \<Rightarrow> (string \<Rightarrow> int option) \<Rightarrow> string option \<Rightarrow> string
    \<Rightarrow> page outcome \<times> effect list" where
  "callback_try fuel pf getTime currentLabel code =
     await (callback_collect fuel pf currentLabel code)
       (\<lambda>(accessToken, userProfile, allTracks) tr.
          callback_playlist pf getTime currentLabel accessToken userProfile allTracks tr)"

text \<open>
  \<^verbatim>\<open>app.get('/callback')\<close>: the page sent back (\<open>None\<close> while the run is still going) and
  the effects of the run. The \<^verbatim>\<open>catch\<close> block logs \<^verbatim>\<open>error.message\<close> and sends the error page.
\<close>

definition callback :: "nat \<Rightarrow> platform \<Rightarrow> (string \<Rightarrow> int option) \<Rightarrow> string option
    \<Rightarrow> string option \<Rightarrow> page option \<times> effect list" where
  "callback fuel pf getTime currentLabel code =
     (case code of
        None \<Rightarrow> (Some NoCodePage, [])
      | Some c \<Rightarrow>
          if c = [] then (Some NoCodePage, [])
          else (case callback_try fuel pf getTime currentLabel c of
                  (Returned sent, tr) \<Rightarrow> (Some sent, tr)
                | (Thrown error, tr) \<Rightarrow>
                    (Some ErrorPage,
                     tr @ [ConsoleError ''Error during processing:'' (err_message error)])
                | (Pending, tr) \<Rightarrow> (None, tr)))"

section \<open>Observations on a run\<close>

definition percents :: "effect list \<Rightarrow> int list" where
  "percents tr = map percent (progress_events tr)"

definition rejected :: "axios_error + 'a \<Rightarrow> axios_error option" where
  "rejected r = (case r of Inl error \<Rightarrow> Some error | Inr data \<Rightarrow> None)"

text \<open>The error, if any, with which the platform answers a request after the history \<open>h\<close>.\<close>

fun failure :: "platform \<Rightarrow> request list \<Rightarrow> request \<Rightarrow> axios_error option" where
  "failure pf h (TokenPost code) = rejected (token_api pf h code)"
| "failure pf h (ProfileGet auth) = rejected (profile_api pf h auth)"
| "failure pf h (SearchGet auth q lim off) = rejected (search_api pf h auth q lim off)"
| "failure pf h (AlbumTracksGet albumId auth) = rejected (tracks_api pf h albumId auth)"
| "failure pf h (CreatePlaylistPost userId auth nm descr) =
     rejected (create_api pf h userId auth nm descr)"
| "failure pf h (AddTracksPost playlistId auth uris) =
     rejected (add_api pf h playlistId auth uris)"

text \<open>The first request of a trace that the platform rejected: its error and what the run did after it.\<close>

fun after_failure :: "platform \<Rightarrow> request list \<Rightarrow> effect list \<Rightarrow> (axios_error \<times> effect list) option" where
  "after_failure pf h [] = None"
| "after_failure pf h (Request r # es) =
     (case failure pf h r of
        Some error \<Rightarrow> Some (error, es)
      | None \<Rightarrow> after_failure pf (h @ [r]) es)"
| "after_failure pf h (e # es) = after_failure pf h es"

fun is_write :: "request \<Rightarrow> bool" where
  "is_write (CreatePlaylistPost userId auth nm descr) = True"
| "is_write (AddTracksPost playlistId auth uris) = True"
| "is_write r = False"

fun batches :: "request list \<Rightarrow> string list list" where
  "batches [] = []"
| "batches (AddTracksPost playlistId auth uris # rs) = uris # batches rs"
| "batches (r # rs) = batches rs"

section \<open>Vocabulary of the properties\<close>

text \<open>
  Two tracks are in chronological order when both release dates parse and the first is
  earlier, or the dates are equal and the first track number is not the greater.
\<close>

definition chronological :: "(string \<Rightarrow> int option) \<Rightarrow> track \<Rightarrow> track \<Rightarrow> bool" where
  "chronological getTime x y =
     (case (getTime (albumReleaseDate x), getTime (albumReleaseDate y)) of
        (Some dx, Some dy) \<Rightarrow> dx < dy \<or> (dx = dy \<and> albumTrackNumber x \<le> albumTrackNumber y)
      | _ \<Rightarrow> False)"

definition sort_key_of :: "(string \<Rightarrow> int option) \<Rightarrow> track \<Rightarrow> int \<times> int" where
  "sort_key_of getTime t =
     (case getTime (albumReleaseDate t) of None \<Rightarrow> 0 | Some d \<Rightarrow> d, albumTrackNumber t)"

text \<open>The slices of a list that the batch loop cuts, \<open>n\<close> of them from index \<open>i\<close> on.\<close>

fun slices :: "nat \<Rightarrow> nat \<Rightarrow> 'a list \<Rightarrow> 'a list list" where
  "slices 0 i xs = []"
| "slices (Suc n) i xs = take BATCH_SIZE (drop i xs) # slices n (i + BATCH_SIZE) xs"

text \<open>The number of pages of 50 that cover a total of \<open>T\<close>, and at least one.\<close>

definition page_count :: "int \<Rightarrow> nat" where
  "page_count T = max 1 (nat ((T + 49) div 50))"

text \<open>
  The percents of a trace never go down and lie between 0 and the bound \<open>b\<close>.
\<close>

definition bounded_by :: "int \<Rightarrow> effect list \<Rightarrow> bool" where
  "bounded_by b tr =
     (0 \<le> b \<and> sorted (percents tr) \<and> (\<forall>p \<in> set (percents tr). 0 \<le> p \<and> p \<le> b))"

text \<open>
  A call that returned or is pending has had every request accepted; a call that threw
  has its last request rejected with the error thrown, and one console line after it.
\<close>

definition halts :: "platform \<Rightarrow> 'a outcome \<times> effect list \<Rightarrow> bool" where
  "halts pf m =
     (case m of
        (Thrown error, tr) \<Rightarrow>
          (\<exists>s. after_failure pf [] tr = Some (error, [ConsoleError s (err_detail error)]))
      | (r, tr) \<Rightarrow> after_failure pf [] tr = None)"

text \<open>The progress events that a run emitted after its first rejected request.\<close>

definition events_after_failure :: "platform \<Rightarrow> effect list \<Rightarrow> progress_event list" where
  "events_after_failure pf tr =
     (case after_failure pf [] tr of
        None \<Rightarrow> []
      | Some (error, rest) \<Rightarrow> progress_events rest)"

definition events_with_message :: "string \<Rightarrow> effect list \<Rightarrow> progress_event list" where
  "events_with_message msg tr = filter (\<lambda>ev. message ev = msg) (progress_events tr)"

definition writes :: "effect list \<Rightarrow> request list" where
  "writes tr = filter is_write (requests tr)"

section \<open>Example data\<close>

text \<open>The time values (milliseconds since the epoch, UTC) of the dates of the examples.\<close>

definition exampleTime :: "string \<Rightarrow> int option" where
  "exampleTime s =
     (if s = ''2020-01-01'' then Some 1577836800000
      else if s = ''2019-06-15'' then Some 1560556800000
      else None)"

definition mk_item :: "string \<Rightarrow> int \<Rightarrow> track_item" where
  "mk_item u n = \<lparr>uri = u, track_number = n\<rparr>"

definition mk_album :: "string \<Rightarrow> string \<Rightarrow> album" where
  "mk_album i d = \<lparr>album_id = i, album_name = i, release_date = d\<rparr>"

text \<open>Two releases of 2020-01-01 and 2019-06-15, with two tracks and one track.\<close>

definition crosstown :: "track list" where
  "crosstown =
     map (stamp (mk_album ''release2020'' ''2020-01-01''))
       [mk_item ''release2020track1'' 1, mk_item ''release2020track2'' 2]
     @ map (stamp (mk_album ''release2019'' ''2019-06-15'')) [mk_item ''release2019track1'' 1]"

text \<open>Two releases of the same day, with tracks 1, 2, 3 and 1, 2, collected in this order.\<close>

definition same_day :: "track list" where
  "same_day =
     map (stamp (mk_album ''R1'' ''2020-01-01''))
       [mk_item ''R1t1'' 1, mk_item ''R1t2'' 2, mk_item ''R1t3'' 3]
     @ map (stamp (mk_album ''R2'' ''2020-01-01'')) [mk_item ''R2t1'' 1, mk_item ''R2t2'' 2]"

text \<open>
  A platform that serves a catalog of releases in pages and a track listing for each
  release, and accepts every write.
\<close>

definition example_platform :: "album list \<Rightarrow> (string \<Rightarrow> track_item list) \<Rightarrow> platform" where
  "example_platform catalog listing =
     \<lparr>token_api = (\<lambda>h code. Inr \<lparr>access_token = Some ''token''\<rparr>),
      profile_api = (\<lambda>h auth. Inr \<lparr>user_id = ''user'', display_name = ''User''\<rparr>),
      search_api = (\<lambda>h auth q lim off.
        Inr \<lparr>albums_items = take lim (drop off catalog), albums_total = int (length catalog)\<rparr>),
      tracks_api = (\<lambda>h albumId auth. Inr (listing albumId)),
      create_api = (\<lambda>h userId auth nm descr.
        Inr \<lparr>playlist_id = ''playlist'', playlist_name = nm,
             external_url = ''https://open.spotify.com/playlist/playlist''\<rparr>),
      add_api = (\<lambda>h playlistId auth uris. Inr ())\<rparr>"

definition numbered :: "string \<Rightarrow> nat \<Rightarrow> string list" where
  "numbered prefix n = map (\<lambda>k. prefix @ show_nat k) [0..<n]"

definition numbered_albums :: "nat \<Rightarrow> album list" where
  "numbered_albums n = map (\<lambda>u. mk_album u ''2020-01-01'') (numbered ''album'' n)"

text \<open>A platform that reports 120 matching releases on every page and lists none.\<close>

definition empty_pages_platform :: platform where
  "empty_pages_platform =
     (example_platform [] (\<lambda>albumId. []))
       \<lparr>search_api := (\<lambda>h auth q lim off. Inr \<lparr>albums_items = [], albums_total = 120\<rparr>)\<rparr>"

definition err500 :: axios_error where
  "err500 =
     \<lparr>err_message = ''Request failed with status code 500'',
      err_response = Some (500, ''Internal Server Error'')\<rparr>"

definition err400 :: axios_error where
  "err400 =
     \<lparr>err_message = ''Request failed with status code 400'',
      err_response = Some (400, ''invalid_grant'')\<rparr>"

text \<open>The catalog of 51 releases, each with one track; the second search page fails with HTTP 500.\<close>

definition second_page_fails :: platform where
  "second_page_fails =
     (example_platform (numbered_albums 51) (\<lambda>albumId. [mk_item (albumId @ ''track1'') 1]))
       \<lparr>search_api := (\<lambda>h auth q lim off.
          if off = 50 then Inl err500
          else Inr \<lparr>albums_items = take lim (drop off (numbered_albums 51)),
                    albums_total = 51\<rparr>)\<rparr>"

text \<open>What the run against this platform does, for the label Crosstown Rebels.\<close>

definition second_page_trace :: "effect list" where
  "second_page_trace =
     [Progress \<lparr>message = ''Received authorization code.'', percent = 10, playlist = None\<rparr>,
      Request (TokenPost ''code''),
      Progress \<lparr>message = ''Access token received.'', percent = 20, playlist = None\<rparr>,
      Request (ProfileGet ''Bearer token''),
      Progress \<lparr>message = ''Logged in as User (user).'', percent = 30, playlist = None\<rparr>,
      Request (SearchGet ''Bearer token'' (label_query (Some ''Crosstown Rebels'')) 50 0),
      Progress \<lparr>message = ''Fetched 50 of 51 albums...'', percent = 40, playlist = None\<rparr>,
      Request (SearchGet ''Bearer token'' (label_query (Some ''Crosstown Rebels'')) 50 50),
      ConsoleError ''Error searching for albums:'' ''Internal Server Error'',
      ConsoleError ''Error during processing:'' ''Request failed with status code 500'']"

text \<open>The token endpoint rejects the code; the token endpoint answers without a token.\<close>

definition token_rejected :: platform where
  "token_rejected =
     (example_platform [] (\<lambda>albumId. []))\<lparr>token_api := (\<lambda>h code. Inl err400)\<rparr>"

definition token_missing :: platform where
  "token_missing =
     (example_platform [] (\<lambda>albumId. []))
       \<lparr>token_api := (\<lambda>h code. Inr \<lparr>access_token = None\<rparr>)\<rparr>"

text \<open>The two releases of the first example, served with their track listings.\<close>

definition crosstown_platform :: platform where
  "crosstown_platform =
     example_platform
       [mk_album ''release2020'' ''2020-01-01'', mk_album ''release2019'' ''2019-06-15'']
       (\<lambda>albumId.
          if albumId = ''release2020''
          then [mk_item ''release2020track1'' 1, mk_item ''release2020track2'' 2]
          else [mk_item ''release2019track1'' 1])"

section \<open>The sorter is the stable sort on (release date, track number)\<close>

lemma sort_insert_insort:
  assumes "getTime (albumReleaseDate x) \<noteq> None"
      and "\<forall>y \<in> set ys. getTime (albumReleaseDate y) \<noteq> None"
  shows "sort_insert (compareTracks getTime) x ys = insort_key (sort_key_of getTime) x ys"
  using assms
proof (induction ys)
  case Nil
  then show ?case by simp
next
  case (Cons y ys)
  from Cons.prems obtain dx dy where
    d: "getTime (albumReleaseDate x) = Some dx" "getTime (albumReleaseDate y) = Some dy"
    by auto
  have "(SortCompare (compareTracks getTime) y x < 0)
      = (\<not> sort_key_of getTime x \<le> sort_key_of getTime y)"
    using d by (auto simp: SortCompare_def compareTracks_def sort_key_of_def less_eq_prod_def)
  with Cons show ?case by simp
qed

lemma array_sort_sort_key:
  assumes "\<forall>t \<in> set xs. getTime (albumReleaseDate t) \<noteq> None"
  shows "array_sort (compareTracks getTime) xs = sort_key (sort_key_of getTime) xs"
  using assms
proof (induction xs)
  case Nil
  then show ?case by (simp add: array_sort_def)
next
  case (Cons x xs)
  then have ih: "array_sort (compareTracks getTime) xs = sort_key (sort_key_of getTime) xs"
    by simp
  have "array_sort (compareTracks getTime) (x # xs)
      = sort_insert (compareTracks getTime) x (sort_key (sort_key_of getTime) xs)"
    using ih by (simp add: array_sort_def)
  also have "\<dots> = insort_key (sort_key_of getTime) x (sort_key (sort_key_of getTime) xs)"
    using Cons.prems by (intro sort_insert_insort) auto
  finally show ?case by (simp add: sort_key_def)
qed

lemma key_le_chronological:
  assumes "getTime (albumReleaseDate x) \<noteq> None" "getTime (albumReleaseDate y) \<noteq> None"
      and "sort_key_of getTime x \<le> sort_key_of getTime y"
  shows "chronological getTime x y"
  using assms by (auto simp: chronological_def sort_key_of_def less_eq_prod_def)

text \<open>
  C1. When every collected track carries a release date that parses (the invariant of the
  track collection), the sorter returns a permutation of its input in which every adjacent
  pair is in chronological order (earlier date, or equal dates and track number not greater),
  and the tracks that agree on date and track number keep the order they were collected in.
\<close>

theorem sorter_chronological_stable:
  assumes "\<forall>t \<in> set allTracks. getTime (albumReleaseDate t) \<noteq> None"
  shows "mset (sortTracks getTime allTracks) = mset allTracks
       \<and> successively (chronological getTime) (sortTracks getTime allTracks)
       \<and> (\<forall>d n. filter (\<lambda>t. getTime (albumReleaseDate t) = Some d \<and> albumTrackNumber t = n)
                  (sortTracks getTime allTracks)
              = filter (\<lambda>t. getTime (albumReleaseDate t) = Some d \<and> albumTrackNumber t = n)
                  allTracks)"
proof -
  let ?k = "sort_key_of getTime"
  let ?ys = "sort_key ?k allTracks"
  have eq: "sortTracks getTime allTracks = ?ys"
    using assms by (simp add: sortTracks_def array_sort_sort_key)
  have valid: "\<forall>t \<in> set ?ys. getTime (albumReleaseDate t) \<noteq> None"
    using assms by simp
  have "sorted (map ?k ?ys)"
    by (rule sorted_sort_key)
  then have "successively (\<lambda>x y. ?k x \<le> ?k y) ?ys"
    by (simp add: successively_if_sorted_wrt successively_map [symmetric])
  then have adj: "successively (chronological getTime) ?ys"
  proof (rule successively_mono)
    fix x y
    assume "x \<in> set ?ys" "y \<in> set ?ys" "?k x \<le> ?k y"
    with valid show "chronological getTime x y"
      by (intro key_le_chronological) auto
  qed
  have stable: "filter (\<lambda>t. getTime (albumReleaseDate t) = Some d \<and> albumTrackNumber t = n) ?ys
      = filter (\<lambda>t. getTime (albumReleaseDate t) = Some d \<and> albumTrackNumber t = n) allTracks"
    for d n
  proof -
    have same: "(getTime (albumReleaseDate t) = Some d \<and> albumTrackNumber t = n) = (?k t = (d, n))"
      if "getTime (albumReleaseDate t) \<noteq> None" for t
      using that by (auto simp: sort_key_of_def)
    have "filter (\<lambda>t. getTime (albumReleaseDate t) = Some d \<and> albumTrackNumber t = n) ?ys
        = filter (\<lambda>t. ?k t = (d, n)) ?ys"
      using valid by (intro filter_cong) (auto simp: same)
    also have "\<dots> = filter (\<lambda>t. ?k t = (d, n)) allTracks"
      by (rule sort_key_stable)
    also have "\<dots> = filter (\<lambda>t. getTime (albumReleaseDate t) = Some d \<and> albumTrackNumber t = n) allTracks"
      using assms by (intro filter_cong) (auto simp: same)
    finally show ?thesis .
  qed
  show ?thesis
    using adj stable by (simp add: eq)
qed

text \<open>
  The example of two releases of 2020-01-01 (two tracks) and 2019-06-15 (one track): the
  track of 2019 comes first, then the two tracks of 2020 in track order.
\<close>

theorem sorter_chronological_stable_witness:
  "map (\<lambda>t. exampleTime (albumReleaseDate t)) crosstown
     = [Some 1577836800000, Some 1577836800000, Some 1560556800000]
   \<and> mset (sortTracks exampleTime crosstown) = mset crosstown
   \<and> successively (chronological exampleTime) (sortTracks exampleTime crosstown)
   \<and> map uri (sortTracks exampleTime crosstown)
       = [''release2019track1'', ''release2020track1'', ''release2020track2'']"
proof -
  have h: "\<forall>t \<in> set crosstown. exampleTime (albumReleaseDate t) \<noteq> None"
    by (simp add: crosstown_def stamp_def mk_album_def mk_item_def exampleTime_def)
  have u: "map uri (sortTracks exampleTime crosstown)
       = [''release2019track1'', ''release2020track1'', ''release2020track2'']"
    by code_simp
  have d: "map (\<lambda>t. exampleTime (albumReleaseDate t)) crosstown
     = [Some 1577836800000, Some 1577836800000, Some 1560556800000]"
    by (simp add: crosstown_def stamp_def mk_album_def mk_item_def exampleTime_def)
  show ?thesis
    using d u sorter_chronological_stable [OF h] by simp
qed

section \<open>Releases that share a date\<close>

text \<open>
  C2 as stated fails: for two releases of the same day, R1 with tracks 1, 2, 3 and R2 with
  tracks 1, 2, the sorter does not keep R1 before R2. The comparator falls back to the track
  number alone, so the result is R1t1, R2t1, R1t2, R2t2, R1t3.
\<close>

theorem same_day_counterexample:
  "map uri (sortTracks exampleTime same_day) = [''R1t1'', ''R2t1'', ''R1t2'', ''R2t2'', ''R1t3'']
   \<and> map uri (sortTracks exampleTime same_day) \<noteq> [''R1t1'', ''R1t2'', ''R1t3'', ''R2t1'', ''R2t2'']"
  by code_simp

text \<open>
  C2, amended. Two releases whose release dates parse to the same day, R1 with tracks
  numbered 1, 2, 3 and R2 with tracks numbered 1, 2, collected R1 first, are sorted to
  R1t1, R2t1, R1t2, R2t2, R1t3: ordered by track number across the two releases, and equal
  track numbers in the order collected.
\<close>

theorem same_day_releases_interleave:
  assumes "getTime (release_date r1) = Some d" "getTime (release_date r2) = Some d"
      and "track_number a1 = 1" "track_number a2 = 2" "track_number a3 = 3"
      and "track_number b1 = 1" "track_number b2 = 2"
  shows "sortTracks getTime (map (stamp r1) [a1, a2, a3] @ map (stamp r2) [b1, b2])
       = [stamp r1 a1, stamp r2 b1, stamp r1 a2, stamp r2 b2, stamp r1 a3]"
  using assms
  by (simp add: sortTracks_def array_sort_def SortCompare_def compareTracks_def stamp_def)

theorem same_day_releases_interleave_witness:
  "exampleTime (release_date (mk_album ''R1'' ''2020-01-01'')) = Some 1577836800000
   \<and> exampleTime (release_date (mk_album ''R2'' ''2020-01-01'')) = Some 1577836800000
   \<and> track_number (mk_item ''R1t1'' 1) = 1 \<and> track_number (mk_item ''R1t2'' 2) = 2
   \<and> track_number (mk_item ''R1t3'' 3) = 3
   \<and> track_number (mk_item ''R2t1'' 1) = 1 \<and> track_number (mk_item ''R2t2'' 2) = 2
   \<and> sortTracks exampleTime same_day
       = [stamp (mk_album ''R1'' ''2020-01-01'') (mk_item ''R1t1'' 1),
          stamp (mk_album ''R2'' ''2020-01-01'') (mk_item ''R2t1'' 1),
          stamp (mk_album ''R1'' ''2020-01-01'') (mk_item ''R1t2'' 2),
          stamp (mk_album ''R2'' ''2020-01-01'') (mk_item ''R2t2'' 2),
          stamp (mk_album ''R1'' ''2020-01-01'') (mk_item ''R1t3'' 3)]"
proof -
  have h1: "exampleTime (release_date (mk_album ''R1'' ''2020-01-01'')) = Some 1577836800000"
    by (simp add: exampleTime_def mk_album_def)
  have h2: "exampleTime (release_date (mk_album ''R2'' ''2020-01-01'')) = Some 1577836800000"
    by (simp add: exampleTime_def mk_album_def)
  have t: "track_number (mk_item u n) = n" for u n
    by (simp add: mk_item_def)
  show ?thesis
    using h1 h2 same_day_releases_interleave [OF h1 h2 t t t t t, of "''R1t1''" "''R1t2''" "''R1t3''" "''R2t1''" "''R2t2''"]
    by (simp add: same_day_def t)
qed

section \<open>Traces\<close>

lemma requests_append [simp]: "requests (xs @ ys) = requests xs @ requests ys"
  by (induction xs rule: requests.induct) simp_all

lemma progress_events_append [simp]:
  "progress_events (xs @ ys) = progress_events xs @ progress_events ys"
  by (induction xs rule: progress_events.induct) simp_all

lemma requests_emit [simp]: "requests (emit tr msg pct) = requests tr"
  by (simp add: emit_def)

lemma batches_append [simp]: "batches (xs @ ys) = batches xs @ batches ys"
  by (induction xs rule: batches.induct) simp_all

lemma batches_map_add [simp]: "batches (map (AddTracksPost playlistId auth) bs) = bs"
  by (induction bs) simp_all

section \<open>The playlist writer\<close>

lemma length_slices [simp]: "length (slices n i xs) = n"
  by (induction n arbitrary: i) simp_all

lemma concat_slices: "concat (slices n i xs) = take (BATCH_SIZE * n) (drop i xs)"
proof (induction n arbitrary: i)
  case 0
  then show ?case by simp
next
  case (Suc n)
  have "concat (slices (Suc n) i xs)
      = take BATCH_SIZE (drop i xs) @ take (BATCH_SIZE * n) (drop BATCH_SIZE (drop i xs))"
    by (simp add: Suc add.commute)
  also have "\<dots> = take (BATCH_SIZE + BATCH_SIZE * n) (drop i xs)"
    by (simp add: take_add)
  finally show ?case by simp
qed

lemma slices_bounded: "b \<in> set (slices n i xs) \<Longrightarrow> length b \<le> BATCH_SIZE"
  by (induction n arbitrary: i) auto

lemma slices_Suc_count:
  assumes "i < length xs"
  shows "(length xs - i + 99) div 100 = Suc ((length xs - (i + 100) + 99) div 100)"
proof (cases "100 \<le> length xs - i")
  case True
  then have "length xs - i + 99 = (length xs - (i + 100) + 99) + 100"
    by linarith
  then show ?thesis
    by (simp only: div_add_self2)
next
  case False
  with assms have "100 * Suc 0 \<le> length xs - i + 99" "length xs - i + 99 < 100 * Suc (Suc 0)"
    by linarith+
  then have "(length xs - i + 99) div 100 = Suc 0"
    by (rule div_nat_eqI)
  moreover from False have "(length xs - (i + 100) + 99) div 100 = 0"
    by simp
  ultimately show ?thesis by simp
qed

lemma add_loop_all_accepted:
  assumes "\<forall>h batch. add_api pf h playlistId (bearer token) batch = Inr ()"
  shows "\<exists>tr'. add_loop pf playlistId trackURIs token i tr = (Returned (), tr')
           \<and> requests tr' = requests tr
               @ map (AddTracksPost playlistId (bearer token))
                   (slices ((length trackURIs - i + 99) div 100) i trackURIs)"
  using assms
proof (induction pf playlistId trackURIs token i tr rule: add_loop.induct)
  case (1 pf playlistId trackURIs token i tr)
  show ?case
  proof (cases "i < length trackURIs")
    case False
    then show ?thesis by (simp add: add_loop.simps [of _ _ _ _ i])
  next
    case True
    let ?batch = "take BATCH_SIZE (drop i trackURIs)"
    let ?tr1 = "emit (tr @ [Request (AddTracksPost playlistId (bearer token) ?batch)])
                  (''Added batch '' @ show_nat (i div BATCH_SIZE + 1) @ '' of tracks.'') 90"
    have acc: "add_api pf (requests tr) playlistId (bearer token) ?batch = Inr ()"
      using "1.prems" by simp
    from "1.IH" [OF True refl acc "1.prems"] obtain tr' where
      run: "add_loop pf playlistId trackURIs token (i + BATCH_SIZE) ?tr1 = (Returned (), tr')"
      and reqs: "requests tr' = requests ?tr1
               @ map (AddTracksPost playlistId (bearer token))
                   (slices ((length trackURIs - (i + BATCH_SIZE) + 99) div 100) (i + BATCH_SIZE)
                      trackURIs)"
      by blast
    have "add_loop pf playlistId trackURIs token i tr = (Returned (), tr')"
      using True acc run by (simp add: add_loop.simps [of _ _ _ _ i])
    moreover have "requests tr' = requests tr
               @ map (AddTracksPost playlistId (bearer token))
                   (slices ((length trackURIs - i + 99) div 100) i trackURIs)"
      using reqs by (simp add: slices_Suc_count [OF True] BATCH_SIZE_def)
    ultimately show ?thesis by blast
  qed
qed

text \<open>
  C4. When the platform accepts every append call, the playlist writer returns, and the
  calls it issued are exactly the append calls of its batches, one after the other: there
  are ceil(N/100) of them for N track URIs, each carries at most 100 URIs, and the batches
  concatenated in the order issued are the input sequence; for N = 250 the batch sizes are
  100, 100, 50.
\<close>

theorem playlist_writer_batches:
  assumes "\<forall>h batch. add_api pf h playlistId (bearer token) batch = Inr ()"
  shows "fst (addTracksToPlaylist pf playlistId trackURIs token tr) = Returned ()
       \<and> (\<exists>bs. requests (snd (addTracksToPlaylist pf playlistId trackURIs token tr))
                  = requests tr @ map (AddTracksPost playlistId (bearer token)) bs
              \<and> length bs = (length trackURIs + 99) div 100
              \<and> (\<forall>b \<in> set bs. length b \<le> 100)
              \<and> concat bs = trackURIs
              \<and> (length trackURIs = 250 \<longrightarrow> map length bs = [100, 100, 50]))"
proof -
  let ?n = "(length trackURIs + 99) div 100"
  let ?bs = "slices ?n 0 trackURIs"
  from add_loop_all_accepted [OF assms, of trackURIs 0 tr] obtain tr' where
    run: "addTracksToPlaylist pf playlistId trackURIs token tr = (Returned (), tr')"
    and reqs: "requests tr' = requests tr @ map (AddTracksPost playlistId (bearer token)) ?bs"
    by (auto simp: addTracksToPlaylist_def)
  have "(length trackURIs + 99) mod 100 < 100"
    by simp
  moreover have "?n * 100 + (length trackURIs + 99) mod 100 = length trackURIs + 99"
    by (rule div_mult_mod_eq)
  ultimately have "100 * ?n \<ge> length trackURIs"
    by linarith
  then have cat: "concat ?bs = trackURIs"
    by (simp add: concat_slices BATCH_SIZE_def)
  have bound: "\<forall>b \<in> set ?bs. length b \<le> 100"
    using slices_bounded [of _ ?n 0 trackURIs] by (simp add: BATCH_SIZE_def)
  have sizes: "map length ?bs = [100, 100, 50]" if "length trackURIs = 250"
  proof -
    have "?n = Suc (Suc (Suc 0))" using that by simp
    then have "?bs = slices (Suc (Suc (Suc 0))) 0 trackURIs" by (simp only:)
    then show ?thesis using that by (simp add: BATCH_SIZE_def)
  qed
  have len: "length ?bs = ?n"
    by simp
  show ?thesis
    unfolding run fst_conv snd_conv
  proof (intro conjI exI [where x = ?bs])
    show "Returned () = Returned ()" ..
    show "requests tr' = requests tr @ map (AddTracksPost playlistId (bearer token)) ?bs"
      by (rule reqs)
    show "length ?bs = ?n"
      by (rule len)
    show "\<forall>b \<in> set ?bs. length b \<le> 100"
      by (rule bound)
    show "concat ?bs = trackURIs"
      by (rule cat)
    show "length trackURIs = 250 \<longrightarrow> map length ?bs = [100, 100, 50]"
      by (intro impI) (rule sizes)
  qed
qed

text \<open>250 URIs are appended in batches of 100, 100 and 50 that concatenate to the input.\<close>

theorem playlist_writer_batches_witness:
  "fst (addTracksToPlaylist (example_platform [] (\<lambda>albumId. [])) ''playlist''
          (numbered ''spotify:track:'' 250) (Some ''token'') []) = Returned ()
   \<and> map length (batches (requests (snd (addTracksToPlaylist (example_platform [] (\<lambda>albumId. []))
        ''playlist'' (numbered ''spotify:track:'' 250) (Some ''token'') [])))) = [100, 100, 50]
   \<and> concat (batches (requests (snd (addTracksToPlaylist (example_platform [] (\<lambda>albumId. []))
        ''playlist'' (numbered ''spotify:track:'' 250) (Some ''token'') []))))
       = numbered ''spotify:track:'' 250"
proof -
  have h: "\<forall>h batch. add_api (example_platform [] (\<lambda>albumId. [])) h ''playlist''
      (bearer (Some ''token'')) batch = Inr ()"
    by (simp add: example_platform_def)
  have l: "length (numbered ''spotify:track:'' 250) = 250"
    by (simp add: numbered_def)
  note run = playlist_writer_batches [OF h, where trackURIs = "numbered ''spotify:track:'' 250"
      and tr = "[]"]
  from run [THEN conjunct2] show ?thesis
  proof (elim exE conjE)
    fix bs
    assume reqs: "requests (snd (addTracksToPlaylist (example_platform [] (\<lambda>albumId. []))
        ''playlist'' (numbered ''spotify:track:'' 250) (Some ''token'') []))
        = requests [] @ map (AddTracksPost ''playlist'' (bearer (Some ''token''))) bs"
      and cat: "concat bs = numbered ''spotify:track:'' 250"
      and sizes: "length (numbered ''spotify:track:'' 250) = 250 \<longrightarrow> map length bs = [100, 100, 50]"
    have bs: "batches (requests (snd (addTracksToPlaylist (example_platform [] (\<lambda>albumId. []))
        ''playlist'' (numbered ''spotify:track:'' 250) (Some ''token'') []))) = bs"
      by (simp only: reqs requests.simps append_Nil batches_map_add)
    show ?thesis
      unfolding bs by (intro conjI run [THEN conjunct1] mp [OF sizes l] cat)
  qed
qed

section \<open>The search paginator\<close>

lemma page_count_step:
  "(int (50 * k + 50) < T) = (Suc k < page_count T)"
proof -
  define d where "d = (T + 49) div 50"
  define m where "m = (T + 49) mod 50"
  have "T + 49 = 50 * d + m" "0 \<le> m" "m < 50"
    by (simp_all add: d_def m_def)
  then show ?thesis
    unfolding page_count_def d_def [symmetric]
    by (cases "0 \<le> d") (auto simp: max_def nat_less_iff)
qed

lemma search_loop_constant_total:
  assumes "\<forall>h off. \<exists>its. search_api pf h auth q limit off
              = Inr \<lparr>albums_items = its, albums_total = T\<rparr>"
  shows "k < page_count T \<Longrightarrow> page_count T - k \<le> fuel \<Longrightarrow>
         \<exists>albums' tr'. search_loop fuel pf auth q albums (50 * k) tr = (Returned albums', tr')
           \<and> requests tr' = requests tr
               @ map (\<lambda>j. SearchGet auth q 50 (50 * j)) [k..<page_count T]"
proof (induction fuel arbitrary: k albums tr)
  case 0
  then have False by linarith
  then show ?case ..
next
  case (Suc fuel)
  let ?n = "page_count T"
  from assms obtain its where
    resp: "search_api pf (requests tr) auth q limit (50 * k) = Inr \<lparr>albums_items = its, albums_total = T\<rparr>"
    by blast
  let ?tr1 = "emit (tr @ [Request (SearchGet auth q limit (50 * k))])
                (''Fetched '' @ show_nat (length (albums @ its)) @ '' of '' @ show_int T
                   @ '' albums...'') 40"
  show ?case
  proof (cases "int (50 * k + 50) < T")
    case True
    with page_count_step [of k T] have more: "Suc k < ?n"
      by blast
    with Suc.prems have "?n - Suc k \<le> fuel"
      by linarith
    from Suc.IH [OF more this, of "albums @ its" ?tr1] obtain albums' tr' where
      run: "search_loop fuel pf auth q (albums @ its) (50 * Suc k) ?tr1 = (Returned albums', tr')"
      and reqs: "requests tr' = requests ?tr1 @ map (\<lambda>j. SearchGet auth q 50 (50 * j)) [Suc k..<?n]"
      by blast
    have next_offset: "50 * k + limit = 50 * Suc k"
      by (simp add: limit_def)
    have "int (50 * k + limit) < T"
      using True by (simp add: limit_def)
    then have "search_loop (Suc fuel) pf auth q albums (50 * k) tr = (Returned albums', tr')"
      using resp run by (simp only: search_loop.simps Let_def next_offset) simp
    moreover have "requests tr' = requests tr @ map (\<lambda>j. SearchGet auth q 50 (50 * j)) [k..<?n]"
      using reqs Suc.prems(1) by (simp add: upt_conv_Cons limit_def)
    ultimately show ?thesis by blast
  next
    case False
    with page_count_step [of k T] have "\<not> Suc k < ?n"
      by blast
    with Suc.prems(1) have last: "[k..<?n] = [k]"
      by (simp add: upt_conv_Cons)
    have "\<not> int (50 * k + limit) < T"
      using False by (simp add: limit_def)
    then have "search_loop (Suc fuel) pf auth q albums (50 * k) tr = (Returned (albums @ its), ?tr1)"
      using resp by (simp add: Let_def)
    moreover have "requests ?tr1 = requests tr @ map (\<lambda>j. SearchGet auth q 50 (50 * j)) [k..<?n]"
      by (simp add: last limit_def)
    ultimately show ?thesis by blast
  qed
qed

text \<open>
  C10. When the platform reports the same total T on every page, whatever items the pages
  carry, the paginator returns (fuel for max(1, ceil(T/50)) pages is enough) and has issued
  exactly max(1, ceil(T/50)) search requests, at the offsets 0, 50, 100, ...: the offset
  advances by 50 a page and the loop stops at the first offset that is not below T, however
  few items were accumulated.
\<close>

theorem paginator_request_count:
  assumes "\<forall>h off. \<exists>its. search_api pf h (bearer token) (label_query label) limit off
              = Inr \<lparr>albums_items = its, albums_total = T\<rparr>"
      and "page_count T \<le> fuel"
  shows "(\<exists>albums. fst (searchAlbumsByLabel fuel pf label token tr) = Returned albums)
       \<and> requests (snd (searchAlbumsByLabel fuel pf label token tr))
           = requests tr
               @ map (\<lambda>j. SearchGet (bearer token) (label_query label) 50 (50 * j))
                   [0..<page_count T]
       \<and> length (requests (snd (searchAlbumsByLabel fuel pf label token tr)))
           = length (requests tr) + page_count T"
proof -
  have "0 < page_count T"
    by (simp add: page_count_def)
  moreover have "page_count T - 0 \<le> fuel"
    using assms(2) by simp
  ultimately obtain albums' tr' where
    "search_loop fuel pf (bearer token) (label_query label) [] (50 * 0) tr = (Returned albums', tr')"
    "requests tr' = requests tr
       @ map (\<lambda>j. SearchGet (bearer token) (label_query label) 50 (50 * j)) [0..<page_count T]"
    using search_loop_constant_total [OF assms(1), where k = 0 and fuel = fuel and albums = "[]" and tr = tr]
    by blast
  then show ?thesis
    by (simp add: searchAlbumsByLabel_def)
qed

text \<open>
  A platform that reports a total of 120 and lists nothing is asked three times, and the
  paginator returns no release.
\<close>

theorem paginator_request_count_witness:
  "fst (searchAlbumsByLabel 3 empty_pages_platform (Some ''Crosstown Rebels'') (Some ''token'') [])
     = Returned []
   \<and> length (requests (snd (searchAlbumsByLabel 3 empty_pages_platform (Some ''Crosstown Rebels'')
        (Some ''token'') []))) = 3"
proof -
  have h: "\<forall>h off. \<exists>its. search_api empty_pages_platform h (bearer (Some ''token''))
             (label_query (Some ''Crosstown Rebels'')) limit off
              = Inr \<lparr>albums_items = its, albums_total = 120\<rparr>"
    by (simp add: empty_pages_platform_def example_platform_def)
  have n: "page_count 120 = 3"
    by (simp add: page_count_def)
  have f: "page_count 120 \<le> 3"
    by (simp add: n)
  have r: "fst (searchAlbumsByLabel 3 empty_pages_platform (Some ''Crosstown Rebels'')
             (Some ''token'') []) = Returned []"
    by code_simp
  show ?thesis
    using paginator_request_count [OF h f, of "[]"] r by (simp add: n)
qed

lemma search_loop_catalog:
  assumes "\<forall>h off. search_api pf h auth q limit off
              = Inr \<lparr>albums_items = take limit (drop off catalog),
                     albums_total = int (length catalog)\<rparr>"
  shows "k < page_count (int (length catalog)) \<Longrightarrow>
         page_count (int (length catalog)) - k \<le> fuel \<Longrightarrow>
         fst (search_loop fuel pf auth q (take (50 * k) catalog) (50 * k) tr) = Returned catalog"
proof (induction fuel arbitrary: k tr)
  case 0
  then have False by linarith
  then show ?case ..
next
  case (Suc fuel)
  let ?n = "page_count (int (length catalog))"
  let ?items = "take limit (drop (50 * k) catalog)"
  have resp: "search_api pf (requests tr) auth q limit (50 * k)
      = Inr \<lparr>albums_items = ?items, albums_total = int (length catalog)\<rparr>"
    using assms by blast
  have "50 * Suc k = 50 * k + 50"
    by simp
  then have grown: "take (50 * k) catalog @ ?items = take (50 * Suc k) catalog"
    by (simp only: take_add limit_def)
  have next_offset: "50 * k + limit = 50 * Suc k"
    by (simp add: limit_def)
  define tr1 where "tr1 = emit (tr @ [Request (SearchGet auth q limit (50 * k))])
      (''Fetched '' @ show_nat (length (take (50 * k) catalog @ ?items)) @ '' of ''
         @ show_int (int (length catalog)) @ '' albums...'') 40"
  have "search_loop (Suc fuel) pf auth q (take (50 * k) catalog) (50 * k) tr
      = (if int (50 * k + limit) < int (length catalog)
         then search_loop fuel pf auth q (take (50 * k) catalog @ ?items) (50 * k + limit) tr1
         else (Returned (take (50 * k) catalog @ ?items), tr1))"
    using resp by (simp add: Let_def tr1_def)
  then have step:
    "search_loop (Suc fuel) pf auth q (take (50 * k) catalog) (50 * k) tr
      = (if int (50 * Suc k) < int (length catalog)
         then search_loop fuel pf auth q (take (50 * Suc k) catalog) (50 * Suc k) tr1
         else (Returned (take (50 * Suc k) catalog), tr1))"
    unfolding grown next_offset .
  show ?case
  proof (cases "int (50 * Suc k) < int (length catalog)")
    case True
    with page_count_step [of k "int (length catalog)"] have more: "Suc k < ?n"
      by simp
    with Suc.prems have "?n - Suc k \<le> fuel"
      by linarith
    from Suc.IH [OF more this]
    have "fst (search_loop fuel pf auth q (take (50 * Suc k) catalog) (50 * Suc k) tr1)
        = Returned catalog" .
    with True show ?thesis
      by (simp only: step if_True)
  next
    case False
    then have "take (50 * Suc k) catalog = catalog"
      by simp
    with False show ?thesis
      by (simp only: step if_False fst_conv)
  qed
qed

text \<open>
  C3. For every label, when the platform holds T distinct matching releases, reports the
  total T on every page and answers the page at offset k with the min(50, T - k) releases
  that follow the first k, the paginator returns (it does not fail, also for T = 0) exactly
  these T releases, without duplicates.
\<close>

theorem paginator_returns_every_release:
  assumes "\<forall>h off. search_api pf h (bearer token) (label_query label) limit off
              = Inr \<lparr>albums_items = take limit (drop off catalog),
                     albums_total = int (length catalog)\<rparr>"
      and "distinct catalog"
      and "page_count (int (length catalog)) \<le> fuel"
  shows "\<exists>albums. fst (searchAlbumsByLabel fuel pf label token tr) = Returned albums
           \<and> albums = catalog \<and> length albums = length catalog \<and> distinct albums"
proof -
  have "0 < page_count (int (length catalog))"
    by (simp add: page_count_def)
  moreover have "page_count (int (length catalog)) - 0 \<le> fuel"
    using assms(3) by simp
  ultimately have "fst (search_loop fuel pf (bearer token) (label_query label)
      (take (50 * 0) catalog) (50 * 0) tr) = Returned catalog"
    by (rule search_loop_catalog [OF assms(1)])
  then show ?thesis
    using assms(2) by (simp add: searchAlbumsByLabel_def)
qed

text \<open>A catalog of 51 releases is returned whole after two pages.\<close>

theorem paginator_returns_every_release_witness:
  "fst (searchAlbumsByLabel 2 (example_platform (numbered_albums 51) (\<lambda>albumId. []))
          (Some ''Crosstown Rebels'') (Some ''token'') []) = Returned (numbered_albums 51)
   \<and> length (numbered_albums 51) = 51 \<and> distinct (numbered_albums 51)"
proof -
  have h: "\<forall>h off. search_api (example_platform (numbered_albums 51) (\<lambda>albumId. [])) h
             (bearer (Some ''token'')) (label_query (Some ''Crosstown Rebels'')) limit off
              = Inr \<lparr>albums_items = take limit (drop off (numbered_albums 51)),
                     albums_total = int (length (numbered_albums 51))\<rparr>"
    by (simp add: example_platform_def)
  have d: "distinct (numbered_albums 51)"
    by code_simp
  have l: "length (numbered_albums 51) = 51"
    by (simp add: numbered_albums_def numbered_def)
  have f: "page_count (int (length (numbered_albums 51))) \<le> 2"
    by (simp add: l page_count_def)
  show ?thesis
    using paginator_returns_every_release [OF h d f, of "[]"] l d by blast
qed

section \<open>Awaited calls\<close>

lemma await_simps [simp]:
  "await (Returned x, tr) k = k x tr"
  "await (Thrown error, tr) k = (Thrown error, tr)"
  "await (Pending, tr) k = (Pending, tr)"
  by (simp_all add: await_def)

lemma await_trace:
  assumes "P (snd m)"
      and "\<And>x tr. P tr \<Longrightarrow> Q (snd (k x tr))"
      and "\<And>tr. P tr \<Longrightarrow> Q tr"
  shows "Q (snd (await m k))"
proof (cases m)
  case (Pair r tr)
  with assms show ?thesis by (cases r) auto
qed

section \<open>The percents of the progress events\<close>

lemma percents_append [simp]: "percents (xs @ ys) = percents xs @ percents ys"
  by (simp add: percents_def)

lemma percents_emit [simp]: "percents (emit tr msg pct) = percents tr @ [pct]"
  by (simp add: emit_def percents_def)

lemma percents_single [simp]:
  "percents [] = []"
  "percents [Request r] = []"
  "percents [ConsoleError s d] = []"
  "percents [Progress ev] = [percent ev]"
  "percents (Request r # es) = percents es"
  "percents (ConsoleError s d # es) = percents es"
  by (simp_all add: percents_def)

lemma bounded_by_empty: "bounded_by 0 []"
  by (simp add: bounded_by_def percents_def)

lemma bounded_by_mono: "bounded_by b tr \<Longrightarrow> b \<le> c \<Longrightarrow> bounded_by c tr"
  by (fastforce simp: bounded_by_def)

lemma bounded_by_emit: "bounded_by b tr \<Longrightarrow> b \<le> c \<Longrightarrow> bounded_by c (emit tr msg c)"
  by (fastforce simp: bounded_by_def sorted_append)

lemma bounded_by_emit_same: "bounded_by c tr \<Longrightarrow> bounded_by c (emit tr msg c)"
  by (rule bounded_by_emit [where b = c]) simp_all

lemma bounded_by_request [simp]:
  "bounded_by b (tr @ [Request r]) = bounded_by b tr"
  "bounded_by b (tr @ [Request r, ConsoleError s d]) = bounded_by b tr"
  "bounded_by b (tr @ [ConsoleError s d]) = bounded_by b tr"
  by (simp_all add: bounded_by_def)

lemma bounded_getAccessToken: "bounded_by b tr \<Longrightarrow> bounded_by b (snd (getAccessToken pf code tr))"
  by (simp add: getAccessToken_def split: sum.split)

lemma bounded_getUserProfile: "bounded_by b tr \<Longrightarrow> bounded_by b (snd (getUserProfile pf token tr))"
  by (simp add: getUserProfile_def split: sum.split)

lemma bounded_getAlbumTracks:
  "bounded_by b tr \<Longrightarrow> bounded_by b (snd (getAlbumTracks pf albumId token tr))"
  by (simp add: getAlbumTracks_def split: sum.split)

lemma bounded_createPlaylist:
  "bounded_by b tr \<Longrightarrow> bounded_by b (snd (createPlaylist pf userId token label tr))"
  by (simp add: createPlaylist_def Let_def split: sum.split)

lemma bounded_search_loop:
  "bounded_by 40 tr \<Longrightarrow> bounded_by 40 (snd (search_loop fuel pf auth q albums offset tr))"
proof (induction fuel arbitrary: albums offset tr)
  case 0
  then show ?case by simp
next
  case (Suc fuel)
  show ?case
  proof (cases "search_api pf (requests tr) auth q limit offset")
    case (Inl error)
    with Suc.prems show ?thesis by simp
  next
    case (Inr data)
    let ?tr1 = "emit (tr @ [Request (SearchGet auth q limit offset)])
                  (''Fetched '' @ show_nat (length (albums @ albums_items data)) @ '' of ''
                     @ show_int (albums_total data) @ '' albums...'') 40"
    have "bounded_by 40 ?tr1"
      using Suc.prems by (intro bounded_by_emit_same) simp
    then show ?thesis
      using Inr Suc.IH [of ?tr1] by (simp add: Let_def)
  qed
qed

lemma bounded_collect_loop:
  "bounded_by 45 tr \<Longrightarrow> bounded_by 45 (snd (collect_loop pf token albums allTracks tr))"
proof (induction albums arbitrary: allTracks tr)
  case Nil
  then show ?case by simp
next
  case (Cons album rest)
  show ?case
    unfolding collect_loop.simps
  proof (rule await_trace [where P = "bounded_by 45"])
    show "bounded_by 45 (snd (getAlbumTracks pf (album_id album) token tr))"
      using Cons.prems by (rule bounded_getAlbumTracks)
  next
    fix albumTracks tr1
    assume "bounded_by 45 tr1"
    then have "bounded_by 45 (emit tr1 (''Processed album '' @ dq @ album_name album @ dq @ ''.'') 45)"
      by (rule bounded_by_emit_same)
    then show "bounded_by 45 (snd (collect_loop pf token rest
        (allTracks @ map (stamp album) albumTracks)
        (emit tr1 (''Processed album '' @ dq @ album_name album @ dq @ ''.'') 45)))"
      by (rule Cons.IH)
  qed
qed

lemma bounded_add_loop:
  "bounded_by 90 tr \<Longrightarrow> bounded_by 90 (snd (add_loop pf playlistId trackURIs token i tr))"
proof (induction pf playlistId trackURIs token i tr rule: add_loop.induct)
  case (1 pf playlistId trackURIs token i tr)
  show ?case
  proof (cases "i < length trackURIs")
    case False
    with "1.prems" show ?thesis by (simp add: add_loop.simps [of _ _ _ _ i])
  next
    case True
    let ?batch = "take BATCH_SIZE (drop i trackURIs)"
    show ?thesis
    proof (cases "add_api pf (requests tr) playlistId (bearer token) ?batch")
      case (Inl error)
      with True "1.prems" show ?thesis by (simp add: add_loop.simps [of _ _ _ _ i])
    next
      case (Inr data)
      let ?tr1 = "emit (tr @ [Request (AddTracksPost playlistId (bearer token) ?batch)])
                    (''Added batch '' @ show_nat (i div BATCH_SIZE + 1) @ '' of tracks.'') 90"
      have "bounded_by 90 ?tr1"
        using "1.prems" by (intro bounded_by_emit_same) simp
      from "1.IH" [OF True refl Inr this] True Inr show ?thesis
        by (simp add: add_loop.simps [of _ _ _ _ i])
    qed
  qed
qed

lemma bounded_by_progress:
  "bounded_by b tr \<Longrightarrow> b \<le> percent ev \<Longrightarrow> bounded_by (percent ev) (tr @ [Progress ev])"
  by (fastforce simp: bounded_by_def sorted_append)

lemma bounded_callback_collect:
  "bounded_by 45 (snd (callback_collect fuel pf currentLabel code))"
  unfolding callback_collect_def
  apply (rule await_trace [where P = "bounded_by 10"])
  subgoal
    by (intro bounded_getAccessToken bounded_by_emit [where b = 0] bounded_by_empty) simp
  subgoal for accessToken tr
    apply (rule await_trace [where P = "bounded_by 20"])
    subgoal
      by (rule bounded_getUserProfile, erule bounded_by_emit) simp
    subgoal for userProfile tr
      apply (rule await_trace [where P = "bounded_by 40"])
      subgoal
        unfolding searchAlbumsByLabel_def
        by (rule bounded_search_loop, rule bounded_by_mono [where b = 30],
            erule bounded_by_emit) simp_all
      subgoal for albums tr
        apply (rule await_trace [where P = "bounded_by 45"])
        subgoal
          by (rule bounded_collect_loop, rule bounded_by_mono [where b = 40],
              erule bounded_by_emit_same) simp
        subgoal by simp
        subgoal by simp
        done
      subgoal by (erule bounded_by_mono) simp
      done
    subgoal by (erule bounded_by_mono) simp
    done
  subgoal by (erule bounded_by_mono) simp
  done

lemma bounded_callback_playlist:
  assumes "bounded_by 45 tr"
  shows "bounded_by 100
           (snd (callback_playlist pf getTime currentLabel accessToken userProfile allTracks tr))"
proof (cases "length allTracks = 0")
  case True
  have "bounded_by 50 (emit tr (''No tracks found for label '' @ dq @ js_string currentLabel
      @ dq @ ''.'') 50)"
    using assms by (rule bounded_by_emit) simp
  then have "bounded_by 100 (emit tr (''No tracks found for label '' @ dq
      @ js_string currentLabel @ dq @ ''.'') 50)"
    by (rule bounded_by_mono) simp
  with True show ?thesis by (simp add: callback_playlist_def)
next
  case False
  show ?thesis
    unfolding callback_playlist_def Let_def
    apply (simp only: False if_False)
    apply (rule await_trace [where P = "bounded_by 65"])
    subgoal
      using assms by (intro bounded_createPlaylist bounded_by_emit [where b = 45]) simp_all
    subgoal for newPlaylist tr
      apply (rule await_trace [where P = "bounded_by 90"])
      subgoal
        unfolding addTracksToPlaylist_def
        by (rule bounded_add_loop, rule bounded_by_mono [where b = 80],
            erule bounded_by_emit) simp_all
      subgoal for u tr
        using bounded_by_progress [of 90
            "emit tr ''All tracks added to the playlist successfully.'' 90"
            "\<lparr>message = ''Processing complete. Check the main page for progress updates.'',
              percent = 100, playlist = Some (external_url newPlaylist)\<rparr>"]
        by (simp add: bounded_by_emit_same)
      subgoal by (erule bounded_by_mono) simp
      done
    subgoal by (erule bounded_by_mono) simp
    done
qed

lemma bounded_callback_try:
  "bounded_by 100 (snd (callback_try fuel pf getTime currentLabel code))"
  unfolding callback_try_def
  apply (rule await_trace [where P = "bounded_by 45" and Q = "bounded_by 100"])
  subgoal by (rule bounded_callback_collect)
  subgoal for x tr by (cases x) (simp add: bounded_callback_playlist)
  subgoal by (erule bounded_by_mono) simp
  done

lemma bounded_callback: "bounded_by 100 (snd (callback fuel pf getTime currentLabel code))"
proof (cases "code = None \<or> code = Some []")
  case True
  then show ?thesis
    by (auto simp: callback_def bounded_by_def)
next
  case False
  then obtain c where c: "code = Some c" "c \<noteq> []"
    by auto
  obtain r tr where run: "callback_try fuel pf getTime currentLabel c = (r, tr)"
    by (cases "callback_try fuel pf getTime currentLabel c")
  have "bounded_by 100 tr"
    using bounded_callback_try [of fuel pf getTime currentLabel c] by (simp add: run)
  then show ?thesis
    by (cases r) (simp_all add: callback_def c run)
qed

text \<open>
  C8. In every run of the callback, finished or cut off while the search is still paging,
  the percents of the progress events emitted so far never decrease, and each lies between
  0 and 100.
\<close>

theorem progress_percent_monotone:
  "sorted (percents (snd (callback fuel pf getTime currentLabel code)))
   \<and> (\<forall>p \<in> set (percents (snd (callback fuel pf getTime currentLabel code))). 0 \<le> p \<and> p \<le> 100)"
  using bounded_callback [of fuel pf getTime currentLabel code] by (simp add: bounded_by_def)

text \<open>A complete run emits the percents 10, 20, 30, 40, 40, 45, 45, 65, 80, 90, 90, 100.\<close>

theorem progress_percent_monotone_witness:
  "percents (snd (callback 1 crosstown_platform exampleTime (Some ''Crosstown Rebels'') (Some ''code'')))
     = [10, 20, 30, 40, 40, 45, 45, 65, 80, 90, 90, 100]
   \<and> sorted (percents (snd (callback 1 crosstown_platform exampleTime (Some ''Crosstown Rebels'')
        (Some ''code''))))"
proof -
  have "percents (snd (callback 1 crosstown_platform exampleTime (Some ''Crosstown Rebels'')
      (Some ''code''))) = [10, 20, 30, 40, 40, 45, 45, 65, 80, 90, 90, 100]"
    by code_simp
  then show ?thesis
    using progress_percent_monotone [of 1 crosstown_platform exampleTime "Some ''Crosstown Rebels''"
        "Some ''code''"]
    by blast
qed

section \<open>The token exchanger\<close>

text \<open>
  C6 as stated fails: a successful response whose body has no access token does not make
  the exchange fail. The call returns the missing field as it is, \<^verbatim>\<open>undefined\<close>.
\<close>

theorem token_missing_counterexample:
  "fst (getAccessToken token_missing ''code'' []) = Returned None"
  by code_simp

text \<open>
  C6, amended. The token exchanger issues one token request. It fails, throwing the upstream
  error as it came (message and response payload), whenever the HTTP response is not a
  success; otherwise it returns the access-token field of the response body, which is
  \<^verbatim>\<open>undefined\<close> when the body lacks the field.
\<close>

theorem token_exchanger_outcome:
  "(token_api pf (requests tr) code = Inl error \<longrightarrow>
      fst (getAccessToken pf code tr) = Thrown error)
   \<and> (token_api pf (requests tr) code = Inr data \<longrightarrow>
      fst (getAccessToken pf code tr) = Returned (access_token data))
   \<and> requests (snd (getAccessToken pf code tr)) = requests tr @ [TokenPost code]"
  by (simp add: getAccessToken_def split: sum.split)

text \<open>
  A rejected code throws the error of the platform; a body without token returns
  \<^verbatim>\<open>undefined\<close>; a body with a token returns the token.
\<close>

theorem token_exchanger_outcome_witness:
  "fst (getAccessToken token_rejected ''code'' []) = Thrown err400
   \<and> fst (getAccessToken token_missing ''code'' []) = Returned None
   \<and> fst (getAccessToken crosstown_platform ''code'' []) = Returned (Some ''token'')"
proof -
  have a: "token_api token_rejected (requests []) ''code'' = Inl err400"
    by (simp add: token_rejected_def example_platform_def)
  have b: "token_api token_missing (requests []) ''code'' = Inr \<lparr>access_token = None\<rparr>"
    by (simp add: token_missing_def example_platform_def)
  have c: "token_api crosstown_platform (requests []) ''code'' = Inr \<lparr>access_token = Some ''token''\<rparr>"
    by (simp add: crosstown_platform_def example_platform_def)
  from a token_exchanger_outcome [of token_rejected "[]" "''code''" err400]
  have "fst (getAccessToken token_rejected ''code'' []) = Thrown err400"
    by blast
  moreover from b token_exchanger_outcome [of token_missing "[]" "''code''" _ "\<lparr>access_token = None\<rparr>"]
  have "fst (getAccessToken token_missing ''code'' []) = Returned None"
    by simp
  moreover from c token_exchanger_outcome [of crosstown_platform "[]" "''code''" _ "\<lparr>access_token = Some ''token''\<rparr>"]
  have "fst (getAccessToken crosstown_platform ''code'' []) = Returned (Some ''token'')"
    by simp
  ultimately show ?thesis by blast
qed

section \<open>A rejected call ends the run\<close>

lemma after_failure_append:
  "after_failure pf h (xs @ ys) =
     (case after_failure pf h xs of
        Some (error, es) \<Rightarrow> Some (error, es @ ys)
      | None \<Rightarrow> after_failure pf (h @ requests xs) ys)"
  by (induction pf h xs rule: after_failure.induct) (simp_all split: option.split)

lemma after_failure_emit [simp]:
  "after_failure pf [] tr = None \<Longrightarrow> after_failure pf [] (emit tr msg pct) = None"
  by (simp add: emit_def after_failure_append)

lemma after_failure_progress [simp]:
  "after_failure pf [] tr = None \<Longrightarrow> after_failure pf [] (tr @ [Progress ev]) = None"
  by (simp add: after_failure_append)

lemma halts_call:
  assumes "after_failure pf [] tr = None"
      and "failure pf (requests tr) r = rejected resp"
  shows "halts pf (case resp of
             Inr data \<Rightarrow> (Returned (f data), tr @ [Request r])
           | Inl error \<Rightarrow> (Thrown error, tr @ [Request r, ConsoleError s (err_detail error)]))"
  using assms by (cases resp) (auto simp: halts_def after_failure_append rejected_def)

lemma halts_getAccessToken:
  "after_failure pf [] tr = None \<Longrightarrow> halts pf (getAccessToken pf code tr)"
  unfolding getAccessToken_def by (rule halts_call) simp_all

lemma halts_getUserProfile:
  "after_failure pf [] tr = None \<Longrightarrow> halts pf (getUserProfile pf token tr)"
  unfolding getUserProfile_def by (rule halts_call [where f = "\<lambda>data. data"]) simp_all

lemma halts_getAlbumTracks:
  "after_failure pf [] tr = None \<Longrightarrow> halts pf (getAlbumTracks pf albumId token tr)"
  unfolding getAlbumTracks_def by (rule halts_call [where f = "\<lambda>data. data"]) simp_all

lemma halts_createPlaylist:
  "after_failure pf [] tr = None \<Longrightarrow> halts pf (createPlaylist pf userId token label tr)"
  unfolding createPlaylist_def Let_def by (rule halts_call [where f = "\<lambda>data. data"]) simp_all

lemma halts_await:
  assumes "halts pf m"
      and "\<And>x tr. after_failure pf [] tr = None \<Longrightarrow> halts pf (k x tr)"
  shows "halts pf (await m k)"
proof (cases m)
  case (Pair r tr)
  with assms show ?thesis by (cases r) (auto simp: halts_def)
qed

lemma halts_returned [simp]:
  "halts pf (Returned x, tr) = (after_failure pf [] tr = None)"
  "halts pf (Pending, tr) = (after_failure pf [] tr = None)"
  by (simp_all add: halts_def)

lemma halts_search_loop:
  "after_failure pf [] tr = None \<Longrightarrow> halts pf (search_loop fuel pf auth q albums offset tr)"
proof (induction fuel arbitrary: albums offset tr)
  case 0
  then show ?case by simp
next
  case (Suc fuel)
  show ?case
  proof (cases "search_api pf (requests tr) auth q limit offset")
    case (Inl error)
    with Suc.prems show ?thesis
      by (simp add: halts_def after_failure_append rejected_def)
  next
    case (Inr data)
    let ?tr1 = "emit (tr @ [Request (SearchGet auth q limit offset)])
                  (''Fetched '' @ show_nat (length (albums @ albums_items data)) @ '' of ''
                     @ show_int (albums_total data) @ '' albums...'') 40"
    have "after_failure pf [] ?tr1 = None"
      using Suc.prems Inr by (simp add: after_failure_append rejected_def)
    then show ?thesis
      using Inr Suc.IH [of ?tr1] by (simp add: Let_def)
  qed
qed

lemma halts_collect_loop:
  "after_failure pf [] tr = None \<Longrightarrow> halts pf (collect_loop pf token albums allTracks tr)"
proof (induction albums arbitrary: allTracks tr)
  case Nil
  then show ?case by simp
next
  case (Cons album rest)
  show ?case
    unfolding collect_loop.simps
    by (rule halts_await, rule halts_getAlbumTracks [OF Cons.prems], rule Cons.IH) simp
qed

lemma halts_add_loop:
  "after_failure pf [] tr = None \<Longrightarrow> halts pf (add_loop pf playlistId trackURIs token i tr)"
proof (induction pf playlistId trackURIs token i tr rule: add_loop.induct)
  case (1 pf playlistId trackURIs token i tr)
  show ?case
  proof (cases "i < length trackURIs")
    case False
    with "1.prems" show ?thesis by (simp add: add_loop.simps [of _ _ _ _ i])
  next
    case True
    let ?batch = "take BATCH_SIZE (drop i trackURIs)"
    show ?thesis
    proof (cases "add_api pf (requests tr) playlistId (bearer token) ?batch")
      case (Inl error)
      with True "1.prems" show ?thesis
        by (simp add: add_loop.simps [of _ _ _ _ i] halts_def after_failure_append rejected_def)
    next
      case (Inr data)
      let ?tr1 = "emit (tr @ [Request (AddTracksPost playlistId (bearer token) ?batch)])
                    (''Added batch '' @ show_nat (i div BATCH_SIZE + 1) @ '' of tracks.'') 90"
      have "after_failure pf [] ?tr1 = None"
        using "1.prems" Inr by (simp add: after_failure_append rejected_def)
      from "1.IH" [OF True refl Inr this] True Inr show ?thesis
        by (simp add: add_loop.simps [of _ _ _ _ i])
    qed
  qed
qed

lemma halts_callback_collect: "halts pf (callback_collect fuel pf currentLabel code)"
  unfolding callback_collect_def
  apply (rule halts_await)
  subgoal by (rule halts_getAccessToken) (simp add: emit_def)
  subgoal for accessToken tr
    apply (rule halts_await)
    subgoal by (rule halts_getUserProfile) simp
    subgoal for userProfile tr
      apply (rule halts_await)
      subgoal unfolding searchAlbumsByLabel_def by (rule halts_search_loop) simp
      subgoal for albums tr
        apply (rule halts_await)
        subgoal by (rule halts_collect_loop) simp
        subgoal by simp
        done
      done
    done
  done

lemma halts_callback_playlist:
  assumes "after_failure pf [] tr = None"
  shows "halts pf (callback_playlist pf getTime currentLabel accessToken userProfile allTracks tr)"
proof (cases "length allTracks = 0")
  case True
  with assms show ?thesis by (simp add: callback_playlist_def)
next
  case False
  show ?thesis
    unfolding callback_playlist_def Let_def
    apply (simp only: False if_False)
    apply (rule halts_await)
    subgoal using assms by (intro halts_createPlaylist) simp
    subgoal for newPlaylist tr
      apply (rule halts_await)
      subgoal unfolding addTracksToPlaylist_def by (rule halts_add_loop) simp
      subgoal by simp
      done
    done
qed

lemma halts_callback_try: "halts pf (callback_try fuel pf getTime currentLabel code)"
  unfolding callback_try_def
  apply (rule halts_await)
  subgoal by (rule halts_callback_collect)
  subgoal for x tr by (cases x) (simp add: halts_callback_playlist)
  done

lemma second_page_run:
  "callback 2 second_page_fails exampleTime (Some ''Crosstown Rebels'') (Some ''code'')
     = (Some ErrorPage, second_page_trace)"
  by code_simp

lemma second_page_rejected:
  "after_failure second_page_fails [] second_page_trace
     = Some (err500,
         [ConsoleError ''Error searching for albums:'' ''Internal Server Error'',
          ConsoleError ''Error during processing:'' ''Request failed with status code 500''])"
  by code_simp

text \<open>
  C5 as stated fails: when the second search page is answered with HTTP 500, the run emits
  no progress event after the failure, and none of its progress events carries the message
  of the error. The \<^verbatim>\<open>catch\<close> block writes to the console and sends the error page.
\<close>

theorem failed_event_counterexample:
  "callback 2 second_page_fails exampleTime (Some ''Crosstown Rebels'') (Some ''code'')
     = (Some ErrorPage, second_page_trace)
   \<and> after_failure second_page_fails [] second_page_trace
     = Some (err500,
         [ConsoleError ''Error searching for albums:'' ''Internal Server Error'',
          ConsoleError ''Error during processing:'' ''Request failed with status code 500''])
   \<and> length (events_after_failure second_page_fails second_page_trace) = 0
   \<and> events_with_message (err_message err500) second_page_trace = []"
proof -
  have "length (events_after_failure second_page_fails second_page_trace) = 0"
    by (simp add: events_after_failure_def second_page_rejected)
  moreover have "events_with_message (err_message err500) second_page_trace = []"
    by code_simp
  ultimately show ?thesis
    using second_page_run second_page_rejected by blast
qed

text \<open>
  C5, amended. In every run in which the platform rejects a call, the run halts at that
  call: after the first rejected request it only writes two console lines (the detail of the
  error, and \<^verbatim>\<open>Error during processing:\<close> with the message of the error), it issues no
  further request (so the playlist writer is never invoked after a failed search) and emits
  no further progress event, and it answers with the generic error page.
\<close>

theorem failure_halts_run:
  assumes "after_failure pf [] (snd (callback fuel pf getTime currentLabel code)) = Some (error, rest)"
  shows "fst (callback fuel pf getTime currentLabel code) = Some ErrorPage
       \<and> (\<exists>s. rest = [ConsoleError s (err_detail error),
                       ConsoleError ''Error during processing:'' (err_message error)])
       \<and> requests rest = [] \<and> progress_events rest = []"
proof (cases "code = None \<or> code = Some []")
  case True
  with assms show ?thesis
    by (auto simp: callback_def)
next
  case False
  then obtain c where c: "code = Some c" "c \<noteq> []"
    by auto
  obtain r tr where run: "callback_try fuel pf getTime currentLabel c = (r, tr)"
    by (cases "callback_try fuel pf getTime currentLabel c")
  have h: "halts pf (r, tr)"
    using halts_callback_try [of pf fuel getTime currentLabel c] by (simp add: run)
  show ?thesis
  proof (cases r)
    case (Returned sent)
    with h assms show ?thesis
      by (simp add: callback_def c run)
  next
    case Pending
    with h assms show ?thesis
      by (simp add: callback_def c run)
  next
    case (Thrown e)
    with h obtain s where "after_failure pf [] tr = Some (e, [ConsoleError s (err_detail e)])"
      by (auto simp: halts_def)
    with Thrown assms show ?thesis
      by (auto simp: callback_def c run after_failure_append)
  qed
qed

text \<open>The run whose second search page fails ends with the error page and asks nothing more.\<close>

theorem failure_halts_run_witness:
  "fst (callback 2 second_page_fails exampleTime (Some ''Crosstown Rebels'') (Some ''code''))
     = Some ErrorPage
   \<and> requests [ConsoleError ''Error searching for albums:'' ''Internal Server Error'',
        ConsoleError ''Error during processing:'' ''Request failed with status code 500''] = []"
proof -
  have "after_failure second_page_fails []
      (snd (callback 2 second_page_fails exampleTime (Some ''Crosstown Rebels'') (Some ''code'')))
    = Some (err500,
        [ConsoleError ''Error searching for albums:'' ''Internal Server Error'',
         ConsoleError ''Error during processing:'' ''Request failed with status code 500''])"
    by (simp only: second_page_run snd_conv second_page_rejected)
  from failure_halts_run [OF this] show ?thesis
    by blast
qed

section \<open>A run without tracks\<close>

lemma writes_append [simp]: "writes (xs @ ys) = writes xs @ writes ys"
  by (simp add: writes_def)

lemma writes_emit [simp]: "writes (emit tr msg pct) = writes tr"
  by (simp add: writes_def)

lemma writes_single [simp]:
  "writes [] = []"
  "writes (Request r # es) = (if is_write r then r # writes es else writes es)"
  "writes (ConsoleError s d # es) = writes es"
  "writes (Progress ev # es) = writes es"
  by (simp_all add: writes_def)

lemma writes_getAccessToken: "writes (snd (getAccessToken pf code tr)) = writes tr"
  by (simp add: getAccessToken_def split: sum.split)

lemma writes_getUserProfile: "writes (snd (getUserProfile pf token tr)) = writes tr"
  by (simp add: getUserProfile_def split: sum.split)

lemma writes_getAlbumTracks: "writes (snd (getAlbumTracks pf albumId token tr)) = writes tr"
  by (simp add: getAlbumTracks_def split: sum.split)

lemma writes_search_loop: "writes (snd (search_loop fuel pf auth q albums offset tr)) = writes tr"
  by (induction fuel arbitrary: albums offset tr) (simp_all add: Let_def split: sum.split)

lemma writes_await:
  assumes "writes (snd m) = ws"
      and "\<And>x tr. writes tr = ws \<Longrightarrow> writes (snd (k x tr)) = ws"
  shows "writes (snd (await m k)) = ws"
proof (cases m)
  case (Pair r tr)
  with assms show ?thesis by (cases r) auto
qed

lemma writes_collect_loop:
  "writes (snd (collect_loop pf token albums allTracks tr)) = writes tr"
proof (induction albums arbitrary: allTracks tr)
  case Nil
  show ?case by simp
next
  case (Cons album rest)
  show ?case
    unfolding collect_loop.simps
    by (rule writes_await, rule writes_getAlbumTracks) (simp add: Cons.IH)
qed

lemma writes_callback_collect: "writes (snd (callback_collect fuel pf currentLabel code)) = []"
  unfolding callback_collect_def
  apply (rule writes_await)
  subgoal by (simp add: writes_getAccessToken emit_def)
  subgoal for accessToken tr
    apply (rule writes_await)
    subgoal by (simp add: writes_getUserProfile)
    subgoal for userProfile tr
      apply (rule writes_await)
      subgoal by (simp add: searchAlbumsByLabel_def writes_search_loop)
      subgoal for albums tr
        apply (rule writes_await)
        subgoal by (simp add: writes_collect_loop)
        subgoal by simp
        done
      done
    done
  done

text \<open>
  C9. In every run in which the track collector returns zero tracks, the callback ends
  early: it answers with the no-tracks page, its last effect is the progress event
  \<^verbatim>\<open>No tracks found for label "..."\<close> at 50 percent, and the run has issued no
  create-playlist call and no add-tracks call.
\<close>

theorem no_tracks_ends_run:
  assumes "fst (callback_collect fuel pf currentLabel code) = Returned (accessToken, userProfile, [])"
      and "code \<noteq> []"
  shows "fst (callback fuel pf getTime currentLabel (Some code)) = Some NoTracksPage
       \<and> snd (callback fuel pf getTime currentLabel (Some code))
           = emit (snd (callback_collect fuel pf currentLabel code))
               (''No tracks found for label '' @ dq @ js_string currentLabel @ dq @ ''.'') 50
       \<and> writes (snd (callback fuel pf getTime currentLabel (Some code))) = []"
proof -
  obtain tr where collect:
    "callback_collect fuel pf currentLabel code = (Returned (accessToken, userProfile, []), tr)"
    using assms(1) by (cases "callback_collect fuel pf currentLabel code") simp
  have "writes tr = []"
    using writes_callback_collect [of fuel pf currentLabel code] by (simp add: collect)
  then show ?thesis
    using assms(2) by (simp add: callback_def callback_try_def callback_playlist_def collect)
qed

text \<open>
  Zero matching releases, and two matching releases with empty track listings: both runs
  end with the no-tracks page and write nothing.
\<close>

theorem no_tracks_ends_run_witness:
  "fst (callback 1 (example_platform [] (\<lambda>albumId. [])) exampleTime (Some ''Crosstown Rebels'')
          (Some ''code'')) = Some NoTracksPage
   \<and> writes (snd (callback 1 (example_platform [] (\<lambda>albumId. [])) exampleTime
          (Some ''Crosstown Rebels'') (Some ''code''))) = []
   \<and> fst (callback 1 (example_platform (numbered_albums 2) (\<lambda>albumId. [])) exampleTime
          (Some ''Crosstown Rebels'') (Some ''code'')) = Some NoTracksPage
   \<and> writes (snd (callback 1 (example_platform (numbered_albums 2) (\<lambda>albumId. [])) exampleTime
          (Some ''Crosstown Rebels'') (Some ''code''))) = []"
proof -
  have a: "fst (callback_collect 1 (example_platform [] (\<lambda>albumId. [])) (Some ''Crosstown Rebels'')
      ''code'') = Returned (Some ''token'', \<lparr>user_id = ''user'', display_name = ''User''\<rparr>, [])"
    by code_simp
  have b: "fst (callback_collect 1 (example_platform (numbered_albums 2) (\<lambda>albumId. []))
      (Some ''Crosstown Rebels'') ''code'')
      = Returned (Some ''token'', \<lparr>user_id = ''user'', display_name = ''User''\<rparr>, [])"
    by code_simp
  have c: "''code'' \<noteq> []"
    by simp
  from no_tracks_ends_run [OF a c, of exampleTime] no_tracks_ends_run [OF b c, of exampleTime]
  show ?thesis
    by blast
qed

section \<open>An empty label\<close>

text \<open>
  C7 does not hold of the server: the label is stored and used unchecked. A run whose label
  is the empty string (submitted, or never submitted) searches for \<^verbatim>\<open>label:""\<close> and
  completes; a submission without label field searches for \<^verbatim>\<open>label:"undefined"\<close>.
\<close>

theorem empty_label_is_searched:
  "fst (callback 1 crosstown_platform exampleTime (start (Some [])) (Some ''code''))
     = Some CompletePage
   \<and> requests (snd (callback 1 crosstown_platform exampleTime (start (Some [])) (Some ''code''))) ! 2
       = SearchGet ''Bearer token'' (''label:'' @ dq @ dq) 50 0
   \<and> requests (snd (callback 1 crosstown_platform exampleTime initialLabel (Some ''code''))) ! 2
       = SearchGet ''Bearer token'' (''label:'' @ dq @ dq) 50 0
   \<and> requests (snd (callback 1 crosstown_platform exampleTime (start None) (Some ''code''))) ! 2
       = SearchGet ''Bearer token'' (''label:'' @ dq @ ''undefined'' @ dq) 50 0"
  by code_simp


end
